theory Spec2Isabelle
  imports Complex_Main "HOL-Library.Multiset"
begin

section \<open>Python strings\<close>

text \<open>
  A Python \<open>str\<close> is a sequence of code points. The model covers the code points
  U+0000 .. U+00FF: a \<^typ>\<open>char\<close> is the code point \<open>of_char c\<close>, and a
  \<^typ>\<open>string\<close> is the sequence. On this range \<open>str.lower\<close> maps each
  character on its own and keeps the length, and \<open>str.isspace\<close> holds of the
  twelve code points listed below.
\<close>

definition isspace_code :: "nat \<Rightarrow> bool" where
  "isspace_code n \<longleftrightarrow> (9 \<le> n \<and> n \<le> 13) \<or> (28 \<le> n \<and> n \<le> 32) \<or> n = 133 \<or> n = 160"

definition py_isspace :: "char \<Rightarrow> bool" where
  "py_isspace c = isspace_code (of_char c)"

definition lower_code :: "nat \<Rightarrow> nat" where
  "lower_code n =
     (if (65 \<le> n \<and> n \<le> 90) \<or> (192 \<le> n \<and> n \<le> 214) \<or> (216 \<le> n \<and> n \<le> 222)
      then n + 32 else n)"

definition py_lower_char :: "char \<Rightarrow> char" where
  "py_lower_char c = char_of (lower_code (of_char c))"

text \<open>\<open>s.lower()\<close>\<close>

definition py_lower :: "string \<Rightarrow> string" where
  "py_lower s = map py_lower_char s"

text \<open>\<open>s.strip()\<close>: whitespace removed at both ends.\<close>

definition py_strip :: "string \<Rightarrow> string" where
  "py_strip s = rev (dropWhile py_isspace (rev (dropWhile py_isspace s)))"

text \<open>
  \<open>s.split()\<close> with no separator: skip a run of whitespace, take the characters up
  to the next whitespace as one word, and go on; no word is empty.
\<close>

function py_split :: "string \<Rightarrow> string list" where
  "py_split s =
     (case dropWhile py_isspace s of
        [] \<Rightarrow> []
      | c # cs \<Rightarrow>
          (c # takeWhile (\<lambda>x. \<not> py_isspace x) cs)
            # py_split (dropWhile (\<lambda>x. \<not> py_isspace x) cs))"
  by pat_completeness auto
termination
proof (relation "measure length")
  show "wf (measure length)" by simp
next
  fix s :: string and c cs
  assume a: "dropWhile py_isspace s = c # cs"
  have "length (dropWhile (\<lambda>x. \<not> py_isspace x) cs) \<le> length cs"
    by (rule length_dropWhile_le)
  also have "length cs < length (dropWhile py_isspace s)"
    by (simp add: a)
  also have "\<dots> \<le> length s"
    by (rule length_dropWhile_le)
  finally show "(dropWhile (\<lambda>x. \<not> py_isspace x) cs, s) \<in> measure length"
    by simp
qed

declare py_split.simps [simp del]

text \<open>
  \<open>s.count(sub)\<close>: the scan looks for \<open>sub\<close> at the current position; after a
  match it resumes behind the match, otherwise one character further. An empty
  \<open>sub\<close> is found \<open>len(s) + 1\<close> times.
\<close>

function py_count :: "string \<Rightarrow> string \<Rightarrow> nat" where
  "py_count s sub =
     (if sub = [] then length s + 1
      else if length s < length sub then 0
      else if take (length sub) s = sub then 1 + py_count (drop (length sub) s) sub
      else py_count (tl s) sub)"
  by pat_completeness auto
termination
proof (relation "measure (\<lambda>(s, sub). length s)")
  show "wf (measure (\<lambda>(s, sub). length s))" by simp
next
  fix s sub :: string
  assume "sub \<noteq> []" and "\<not> length s < length sub"
  then have "0 < length sub" and "length sub \<le> length s" by simp_all
  then have "length s - length sub < length s" by arith
  then show "((drop (length sub) s, sub), s, sub) \<in> measure (\<lambda>(s, sub). length s)"
    by simp
next
  fix s sub :: string
  assume "sub \<noteq> []" and "\<not> length s < length sub"
  then have "s \<noteq> []" by (cases s) simp_all
  then have "length (tl s) < length s" by (cases s) simp_all
  then show "((tl s, sub), s, sub) \<in> measure (\<lambda>(s, sub). length s)"
    by simp
qed

declare py_count.simps [simp del]

section \<open>The lexical scorer\<close>

text \<open>The loop \<open>for term in terms: score += content_lower.count(term)\<close>.\<close>

fun count_terms :: "string list \<Rightarrow> string \<Rightarrow> nat \<Rightarrow> nat" where
  "count_terms [] content_lower acc = acc"
| "count_terms (t # terms) content_lower acc =
     count_terms terms content_lower (acc + py_count content_lower t)"

text \<open>\<open>_lexical_score(query, content)\<close>; the float it returns is a real number here.\<close>

definition lexical_score :: "string \<Rightarrow> string \<Rightarrow> real" where
  "lexical_score query content =
     (let query_lower = py_strip (py_lower query)
      in if query_lower = [] then 0
         else (let terms = py_split query_lower;
                   content_lower = py_lower content
               in real (count_terms terms content_lower 0)))"

subsection \<open>The scorer as the specification words it\<close>

text \<open>
  The number of occurrences of \<open>sub\<close> in \<open>s\<close> as a substring, overlapping ones
  included: the number of positions at which \<open>sub\<close> starts.
\<close>

definition occurrence_positions :: "string \<Rightarrow> string \<Rightarrow> nat list" where
  "occurrence_positions sub s =
     filter (\<lambda>i. take (length sub) (drop i s) = sub) [0..<Suc (length s)]"

definition overlapping_occurrences :: "string \<Rightarrow> string \<Rightarrow> nat" where
  "overlapping_occurrences sub s = length (occurrence_positions sub s)"

text \<open>
  The reference definition of the specification: trim and lower-case the query, split
  it at whitespace, and sum the overlapping occurrence counts of the terms in the
  lower-cased content.
\<close>

definition spec_score :: "string \<Rightarrow> string \<Rightarrow> real" where
  "spec_score query content =
     (let q = py_lower (py_strip query)
      in if q = [] then 0
         else sum_list (map (\<lambda>t. real (overlapping_occurrences t (py_lower content)))
                (py_split q)))"

text \<open>
  Occurrences that do not overlap, chosen from left to right: a position counts when it
  is not before \<open>bound\<close>, the end of the occurrence counted last.
\<close>

fun leftmost_disjoint :: "nat \<Rightarrow> nat \<Rightarrow> nat list \<Rightarrow> nat" where
  "leftmost_disjoint len bound [] = 0"
| "leftmost_disjoint len bound (p # ps) =
     (if bound \<le> p then Suc (leftmost_disjoint len (p + len) ps)
      else leftmost_disjoint len bound ps)"

definition nonoverlapping_occurrences :: "string \<Rightarrow> string \<Rightarrow> nat" where
  "nonoverlapping_occurrences sub s =
     leftmost_disjoint (length sub) 0 (occurrence_positions sub s)"

definition spec_score_nonoverlapping :: "string \<Rightarrow> string \<Rightarrow> real" where
  "spec_score_nonoverlapping query content =
     (let q = py_lower (py_strip query)
      in if q = [] then 0
         else sum_list (map (\<lambda>t. real (nonoverlapping_occurrences t (py_lower content)))
                (py_split q)))"

section \<open>Floating-point numbers\<close>

text \<open>
  The value of a Python \<open>float\<close> (IEEE 754 binary64) or of a numpy scalar: a finite
  real number, an infinity or NaN. The two zeros are one value, \<open>Finite 0\<close>.
\<close>

datatype pyfloat = Finite real | PosInf | NegInf | NaN

text \<open>
  A binary format: the number of significand bits and the exponents of the smallest
  and the largest normal numbers.
\<close>

record float_format =
  precision :: nat
  emin :: int
  emax :: int

definition binary64 :: float_format where
  "binary64 = \<lparr>precision = 53, emin = - 1022, emax = 1023\<rparr>"

definition binary32 :: float_format where
  "binary32 = \<lparr>precision = 24, emin = - 126, emax = 127\<rparr>"

text \<open>Rounding to the nearest integer, a tie to the even one.\<close>

definition round_half_even :: "real \<Rightarrow> int" where
  "round_half_even y =
     (let f = \<lfloor>y\<rfloor>
      in if y - of_int f < 1 / 2 then f
         else if 1 / 2 < y - of_int f then f + 1
         else if even f then f else f + 1)"

text \<open>
  Rounding a real number to the nearest number of the format (a tie to the even
  significand): the exponent of \<open>x\<close> is that of its binade, or \<open>emin\<close> in the
  subnormal range; \<open>ulp\<close> is the distance of neighbouring numbers of the format there.
  A result beyond the largest finite number of the format is an infinity.
\<close>

definition float_exponent :: "float_format \<Rightarrow> real \<Rightarrow> int" where
  "float_exponent fmt x = max (emin fmt) \<lfloor>log 2 \<bar>x\<bar>\<rfloor>"

definition ulp :: "float_format \<Rightarrow> real \<Rightarrow> real" where
  "ulp fmt x = 2 powi (float_exponent fmt x - (int (precision fmt) - 1))"

definition round_nearest :: "float_format \<Rightarrow> real \<Rightarrow> real" where
  "round_nearest fmt x =
     (if x = 0 then 0 else of_int (round_half_even (x / ulp fmt x)) * ulp fmt x)"

definition max_finite :: "float_format \<Rightarrow> real" where
  "max_finite fmt = (2 - 2 powi (1 - int (precision fmt))) * 2 powi (emax fmt)"

definition float_round :: "float_format \<Rightarrow> real \<Rightarrow> pyfloat" where
  "float_round fmt x =
     (let r = round_nearest fmt x
      in if max_finite fmt < r then PosInf
         else if r < - max_finite fmt then NegInf
         else Finite r)"

text \<open>The comparisons \<open><\<close> and \<open><=\<close> of floats: both are false when NaN takes part.\<close>

fun float_less :: "pyfloat \<Rightarrow> pyfloat \<Rightarrow> bool" where
  "float_less NaN b = False"
| "float_less a NaN = False"
| "float_less (Finite x) (Finite y) = (x < y)"
| "float_less a NegInf = False"
| "float_less NegInf b = True"
| "float_less PosInf b = False"
| "float_less a PosInf = True"

definition float_le :: "pyfloat \<Rightarrow> pyfloat \<Rightarrow> bool" where
  "float_le a b = (float_less a b \<or> (a = b \<and> a \<noteq> NaN))"

text \<open>Addition in a format.\<close>

fun float_add :: "float_format \<Rightarrow> pyfloat \<Rightarrow> pyfloat \<Rightarrow> pyfloat" where
  "float_add fmt NaN b = NaN"
| "float_add fmt a NaN = NaN"
| "float_add fmt PosInf NegInf = NaN"
| "float_add fmt NegInf PosInf = NaN"
| "float_add fmt PosInf b = PosInf"
| "float_add fmt a PosInf = PosInf"
| "float_add fmt NegInf b = NegInf"
| "float_add fmt a NegInf = NegInf"
| "float_add fmt (Finite x) (Finite y) = float_round fmt (x + y)"

text \<open>
  The class of a distance that a vector store returns, which decides the arithmetic of
  \<open>1 + distance\<close> and \<open>1.0 / (1 + distance)\<close>: a Python \<open>float\<close> computes in
  binary64 and raises \<open>ZeroDivisionError\<close> on a zero divisor; a \<open>numpy.float64\<close>
  computes in binary64 and a \<open>numpy.float32\<close> in binary32, and both return an
  infinity on a zero divisor. (Under the promotion rules of NumPy 1 the Python scalars
  \<open>1\<close> and \<open>1.0\<close> lift a \<open>numpy.float32\<close> to \<open>numpy.float64\<close>: that arithmetic
  is the one of \<open>numpy_float64\<close>.)
\<close>

datatype number_type = python_float | numpy_float64 | numpy_float32

type_synonym number = "number_type \<times> pyfloat"

fun format_of :: "number_type \<Rightarrow> float_format" where
  "format_of python_float = binary64"
| "format_of numpy_float64 = binary64"
| "format_of numpy_float32 = binary32"

fun zero_division_raises :: "number_type \<Rightarrow> bool" where
  "zero_division_raises python_float = True"
| "zero_division_raises numpy_float64 = False"
| "zero_division_raises numpy_float32 = False"

section \<open>Data model\<close>

text \<open>
  \<open>Document\<close> (langchain), \<open>SearchResult\<close> and \<open>CypherQuery\<close> (models.py).
  \<open>hashable\<close> tells whether the class of the object defines \<open>__hash__\<close>: the
  class \<open>Document\<close> itself, a pydantic model with \<open>__eq__\<close>, does not; a subclass
  may.
\<close>

record Document =
  page_content :: string
  metadata :: "(string \<times> string) list"
  hashable :: bool

record SearchResult =
  document :: Document
  score :: pyfloat
  reason :: "string option"

record CypherQuery =
  cypher :: string

text \<open>
  The exceptions of the model are all subclasses of \<open>Exception\<close>:
  \<open>ProviderError\<close> stands for whatever an external library raises.
\<close>

datatype py_error =
    TypeError
  | ValidationError
  | ZeroDivisionError
  | ProviderError string

text \<open>
  The constructor of \<open>SearchResult\<close> validates \<open>score: float = Field(..., ge=0)\<close>:
  it takes the value of the number as a \<open>float\<close> and refuses it unless \<open>score >= 0\<close>.
\<close>

definition SearchResult_init ::
  "Document \<Rightarrow> pyfloat \<Rightarrow> string option \<Rightarrow> py_error + SearchResult" where
  "SearchResult_init doc sc rs =
     (if float_le (Finite 0) sc then Inr \<lparr>document = doc, score = sc, reason = rs\<rparr>
      else Inl ValidationError)"

text \<open>\<open>Document(page_content=...)\<close>: an object of the class \<open>Document\<close> itself.\<close>

definition Document_init :: "string \<Rightarrow> Document" where
  "Document_init text = \<lparr>page_content = text, metadata = [], hashable = False\<rparr>"

text \<open>\<open>CypherQuery.__str__\<close>\<close>

definition CypherQuery_str :: "CypherQuery \<Rightarrow> string" where
  "CypherQuery_str cq = cypher cq"

text \<open>\<open>1 + distance\<close> and \<open>1.0 / x\<close>, in the arithmetic of the number's class.\<close>

definition one_plus :: "number \<Rightarrow> number" where
  "one_plus d = (fst d, float_add (format_of (fst d)) (Finite 1) (snd d))"

definition one_over :: "number \<Rightarrow> py_error + number" where
  "one_over x =
     (case snd x of
        Finite r \<Rightarrow>
          (if r = 0
           then (if zero_division_raises (fst x) then Inl ZeroDivisionError
                 else Inr (fst x, PosInf))
           else Inr (fst x, float_round (format_of (fst x)) (1 / r)))
      | PosInf \<Rightarrow> Inr (fst x, Finite 0)
      | NegInf \<Rightarrow> Inr (fst x, Finite 0)
      | NaN \<Rightarrow> Inr (fst x, NaN))"

text \<open>The literal \<open>0.9\<close>: the binary64 number nearest to 9/10.\<close>

definition float_literal :: "real \<Rightarrow> pyfloat" where
  "float_literal x = float_round binary64 x"

section \<open>External collaborators and the state of the process\<close>

text \<open>
  The embedding provider, the vector store and the language model are outside the
  repository. Their outcomes are the fields of an environment: each call either raises
  (\<open>Inl\<close>) or returns (\<open>Inr\<close>).
  \<^item> \<open>OpenAIEmbeddings\<close>: the constructor \<open>OpenAIEmbeddings()\<close>;
  \<^item> \<open>FAISS_from_documents\<close>: \<open>FAISS.from_documents(list(documents), embeddings)\<close>;
  \<^item> \<open>similarity_search_with_score\<close>: the search of a store built from the given
    documents, for a query and \<open>k\<close>, returning (document, distance) pairs;
  \<^item> \<open>OpenAI\<close>: the constructor \<open>OpenAI()\<close>;
  \<^item> \<open>parser_schema\<close>: the text that \<open>parser.schema\<close> contributes to the prompt, or
    the error of that string concatenation;
  \<^item> \<open>llm_apredict\<close>: \<open>await llm.apredict(prompt)\<close>;
  \<^item> \<open>parser_parse\<close>: \<open>parser.parse(raw)\<close>.
\<close>

record env =
  OpenAIEmbeddings :: "py_error + unit"
  FAISS_from_documents :: "Document list \<Rightarrow> py_error + unit"
  similarity_search_with_score ::
    "Document list \<Rightarrow> string \<Rightarrow> nat \<Rightarrow> py_error + (Document \<times> number) list"
  OpenAI :: "py_error + unit"
  parser_schema :: "py_error + string"
  llm_apredict :: "string \<Rightarrow> py_error + string"
  parser_parse :: "string \<Rightarrow> py_error + CypherQuery"

text \<open>
  A \<open>FAISS\<close> instance: its identity and the documents it indexes.
\<close>

record FAISS =
  faiss_id :: nat
  faiss_docs :: "Document list"

text \<open>The calls that leave the repository's code, and the call of the graph search.\<close>

datatype event =
    Call_OpenAIEmbeddings
  | Call_from_documents "Document list"
  | Call_similarity_search nat string nat
  | Call_OpenAI
  | Call_apredict string
  | Call_parse string
  | Call_search_knowledgegraph string

text \<open>
  The state of the process: the entries of the \<open>lru_cache\<close> around \<open>load_FAISS\<close>,
  the most recently used first; the identity the next \<open>FAISS\<close> instance gets; and the
  calls made so far, in order.
\<close>

record state =
  cache :: "(Document list \<times> FAISS) list"
  next_id :: nat
  calls :: "event list"

definition initial_state :: state where
  "initial_state = \<lparr>cache = [], next_id = 0, calls = []\<rparr>"

definition log_call :: "event \<Rightarrow> state \<Rightarrow> state" where
  "log_call e st = st\<lparr>calls := calls st @ [e]\<rparr>"

section \<open>The operations of integrations.py\<close>

subsection \<open>\<open>text_to_cypher\<close>\<close>

text \<open>
  The client \<open>OpenAI()\<close> and the prompt are built before the \<open>try\<close>; only the
  model call and the parse stand inside it, where \<open>except Exception\<close> turns every
  error into \<open>None\<close>.
\<close>

definition build_prompt :: "string \<Rightarrow> string \<Rightarrow> string" where
  "build_prompt schema text =
     ''Convert the following natural-language query to a Cypher query. ''
     @ ''Return your answer as JSON matching this schema:\<newline>'' @ schema
     @ ''\<newline>\<newline>'' @ ''Input: '' @ text"

definition text_to_cypher ::
  "env \<Rightarrow> string \<Rightarrow> state \<Rightarrow> (py_error + CypherQuery option) \<times> state" where
  "text_to_cypher ev text st =
     (let st1 = log_call Call_OpenAI st in
      case OpenAI ev of
        Inl e \<Rightarrow> (Inl e, st1)
      | Inr llm \<Rightarrow>
          (case parser_schema ev of
             Inl e \<Rightarrow> (Inl e, st1)
           | Inr schema \<Rightarrow>
               (let prompt = build_prompt schema text;
                    st2 = log_call (Call_apredict prompt) st1 in
                case llm_apredict ev prompt of
                  Inl e \<Rightarrow> (Inr None, st2)
                | Inr raw \<Rightarrow>
                    (let st3 = log_call (Call_parse raw) st2 in
                     case parser_parse ev raw of
                       Inl e \<Rightarrow> (Inr None, st3)
                     | Inr parsed \<Rightarrow> (Inr (Some parsed), st3)))))"

subsection \<open>\<open>load_FAISS\<close>\<close>

text \<open>The decorated function: it builds the embeddings and the store.\<close>

definition load_FAISS_uncached ::
  "env \<Rightarrow> Document list \<Rightarrow> state \<Rightarrow> (py_error + FAISS) \<times> state" where
  "load_FAISS_uncached ev documents st =
     (let st1 = log_call Call_OpenAIEmbeddings st in
      case OpenAIEmbeddings ev of
        Inl e \<Rightarrow> (Inl e, st1)
      | Inr embeddings \<Rightarrow>
          (let st2 = log_call (Call_from_documents documents) st1 in
           case FAISS_from_documents ev documents of
             Inl e \<Rightarrow> (Inl e, st2)
           | Inr u \<Rightarrow>
               (Inr \<lparr>faiss_id = next_id st2, faiss_docs = documents\<rparr>,
                st2\<lparr>next_id := Suc (next_id st2)\<rparr>)))"

text \<open>
  \<open>@lru_cache()\<close> has the default \<open>maxsize=128\<close>. The key of a call is the tuple
  of documents, and the cache hashes it first: the hash of a tuple is computed from
  the hashes of its elements, so a document without \<open>__hash__\<close> raises \<open>TypeError\<close>
  before any lookup or build. A hit returns the stored instance and makes its entry the
  most recent. A miss calls the function; an exception leaves the cache as it is; a
  result is stored as the most recent entry, in place of the least recent one when the
  cache is full.
\<close>

definition lru_maxsize :: nat where
  "lru_maxsize = 128"

definition load_FAISS ::
  "env \<Rightarrow> Document list \<Rightarrow> state \<Rightarrow> (py_error + FAISS) \<times> state" where
  "load_FAISS ev documents st =
     (if \<not> list_all hashable documents then (Inl TypeError, st)
      else
        (case map_of (cache st) documents of
           Some store \<Rightarrow>
             (Inr store,
              st\<lparr>cache := (documents, store) # filter (\<lambda>kv. fst kv \<noteq> documents) (cache st)\<rparr>)
         | None \<Rightarrow>
             (case load_FAISS_uncached ev documents st of
                (Inl e, st1) \<Rightarrow> (Inl e, st1)
              | (Inr store, st1) \<Rightarrow>
                  (Inr store,
                   st1\<lparr>cache := (documents, store)
                      # (if lru_maxsize \<le> length (cache st1) then butlast (cache st1)
                         else cache st1)\<rparr>))))"

subsection \<open>\<open>search_knowledgegraph\<close>\<close>

definition search_knowledgegraph :: "CypherQuery \<Rightarrow> py_error + SearchResult list" where
  "search_knowledgegraph cypher_query =
     (case SearchResult_init (Document_init (CypherQuery_str cypher_query))
             (float_literal (9 / 10)) (Some ''test'') of
        Inl e \<Rightarrow> Inl e
      | Inr r \<Rightarrow> Inr [r])"

subsection \<open>\<open>search_documents\<close>\<close>

text \<open>
  The body of the loop over the hits,
  \<open>SearchResult(document=doc, score=1.0 / (1 + distance))\<close>: the division may raise,
  and the constructor refuses a score that is not \<open>>= 0\<close>.
\<close>

definition score_of_distance :: "number \<Rightarrow> py_error + pyfloat" where
  "score_of_distance distance =
     (case one_over (one_plus distance) of
        Inl e \<Rightarrow> Inl e
      | Inr q \<Rightarrow> Inr (snd q))"

definition hit_result :: "Document \<times> number \<Rightarrow> py_error + SearchResult" where
  "hit_result hit =
     (case score_of_distance (snd hit) of
        Inl e \<Rightarrow> Inl e
      | Inr sc \<Rightarrow> SearchResult_init (fst hit) sc None)"

fun append_hits ::
  "(Document \<times> number) list \<Rightarrow> SearchResult list \<Rightarrow> py_error + SearchResult list" where
  "append_hits [] results = Inr results"
| "append_hits (hit # hits) results =
     (case hit_result hit of
        Inl e \<Rightarrow> Inl e
      | Inr r \<Rightarrow> append_hits hits (results @ [r]))"

text \<open>
  \<open>results.sort(key=lambda r: r.score, reverse=True)\<close>: a stable sort, the larger
  score first. Every score in the list has passed \<open>ge=0\<close>, so none is NaN and the
  scores are totally ordered; the sort is written as an insertion sort that keeps the
  order of equal scores.
\<close>

fun insort_reverse :: "SearchResult \<Rightarrow> SearchResult list \<Rightarrow> SearchResult list" where
  "insort_reverse r [] = [r]"
| "insort_reverse r (x # xs) =
     (if float_less (score r) (score x) then x # insort_reverse r xs else r # x # xs)"

definition sort_by_score_reverse :: "SearchResult list \<Rightarrow> SearchResult list" where
  "sort_by_score_reverse results = foldr insort_reverse results []"

definition search_documents ::
  "env \<Rightarrow> string \<Rightarrow> Document list \<Rightarrow> state \<Rightarrow> (py_error + SearchResult list) \<times> state" where
  "search_documents ev query documents st =
     (if query = [] then (Inr [], st)
      else
        (case load_FAISS ev documents st of
           (Inl e, st1) \<Rightarrow> (Inl e, st1)
         | (Inr store, st1) \<Rightarrow>
             (let st2 = log_call
                    (Call_similarity_search (faiss_id store) query (length documents)) st1 in
              case similarity_search_with_score ev (faiss_docs store) query (length documents) of
                Inl e \<Rightarrow> (Inl e, st2)
              | Inr faiss_hits \<Rightarrow>
                  (case append_hits faiss_hits [] of
                     Inl e \<Rightarrow> (Inl e, st2)
                   | Inr results \<Rightarrow>
                       (case text_to_cypher ev query st2 of
                          (Inl e, st3) \<Rightarrow> (Inl e, st3)
                        | (Inr None, st3) \<Rightarrow> (Inr (sort_by_score_reverse results), st3)
                        | (Inr (Some cypher_obj), st3) \<Rightarrow>
                            (let st4 = log_call
                                   (Call_search_knowledgegraph (CypherQuery_str cypher_obj)) st3 in
                             case search_knowledgegraph cypher_obj of
                               Inl e \<Rightarrow> (Inl e, st4)
                             | Inr graph \<Rightarrow>
                                 (Inr (sort_by_score_reverse (results @ graph)), st4)))))))"

section \<open>Concrete environments\<close>

text \<open>
  Two documents of the class \<open>Document\<close>, and the same two as objects of a hashable
  subclass.
\<close>

definition doc_a :: Document where
  "doc_a = \<lparr>page_content = ''graph databases'', metadata = [], hashable = False\<rparr>"

definition doc_b :: Document where
  "doc_b = \<lparr>page_content = ''vector search'', metadata = [], hashable = False\<rparr>"

definition hdoc_a :: Document where
  "hdoc_a = doc_a\<lparr>hashable := True\<rparr>"

definition hdoc_b :: Document where
  "hdoc_b = doc_b\<lparr>hashable := True\<rparr>"

text \<open>
  An environment in which every collaborator answers: the store returns the indexed
  documents in order, the \<open>i\<close>-th at the distance \<open>i\<close>, a Python \<open>float\<close>; the
  model's answer parses to a query.
\<close>

definition env_ok :: env where
  "env_ok =
     \<lparr>OpenAIEmbeddings = Inr (),
      FAISS_from_documents = (\<lambda>docs. Inr ()),
      similarity_search_with_score =
        (\<lambda>docs q k. Inr (take k (zip docs
           (map (\<lambda>i. (python_float, Finite (real i))) [0..<length docs])))),
      OpenAI = Inr (),
      parser_schema = Inr ''{}'',
      llm_apredict = (\<lambda>prompt. Inr ''MATCH (n) RETURN n''),
      parser_parse = (\<lambda>raw. Inr \<lparr>cypher = raw\<rparr>)\<rparr>"

text \<open>No API key: the constructor \<open>OpenAI()\<close> raises.\<close>

definition env_no_key :: env where
  "env_no_key = env_ok\<lparr>OpenAI := Inl (ProviderError ''missing api key'')\<rparr>"

text \<open>The model cannot be reached: \<open>llm.apredict\<close> raises.\<close>

definition env_llm_down :: env where
  "env_llm_down = env_ok\<lparr>llm_apredict := (\<lambda>prompt. Inl (ProviderError ''connection refused''))\<rparr>"

text \<open>Nothing works: every collaborator raises.\<close>

definition env_down :: env where
  "env_down =
     \<lparr>OpenAIEmbeddings = Inl (ProviderError ''down''),
      FAISS_from_documents = (\<lambda>docs. Inl (ProviderError ''down'')),
      similarity_search_with_score = (\<lambda>docs q k. Inl (ProviderError ''down'')),
      OpenAI = Inl (ProviderError ''down''),
      parser_schema = Inl TypeError,
      llm_apredict = (\<lambda>prompt. Inl (ProviderError ''down'')),
      parser_parse = (\<lambda>raw. Inl (ProviderError ''down''))\<rparr>"

text \<open>
  The \<open>SearchResult\<close> of a vector hit whose score is \<open>sc\<close>: the hit's document and no
  reason text.
\<close>

definition vector_result :: "Document \<Rightarrow> pyfloat \<Rightarrow> SearchResult" where
  "vector_result doc sc = \<lparr>document = doc, score = sc, reason = None\<rparr>"

text \<open>
  The result of the graph search stub for a translated query, and the graph results of
  a translation that may be absent.
\<close>

definition graph_result :: "CypherQuery \<Rightarrow> SearchResult" where
  "graph_result cq =
     \<lparr>document = \<lparr>page_content = cypher cq, metadata = [], hashable = False\<rparr>,
      score = float_literal (9 / 10), reason = Some ''test''\<rparr>"

definition graph_results :: "CypherQuery option \<Rightarrow> SearchResult list" where
  "graph_results tq = (case tq of None \<Rightarrow> [] | Some cq \<Rightarrow> [graph_result cq])"

text \<open>
  Corpora that differ from one another: the \<open>k\<close>-th holds one hashable document, whose
  text is the character of code \<open>k\<close>. \<open>load_all\<close> loads the indexes of a list of
  corpora, one after the other.
\<close>

definition corpus :: "nat \<Rightarrow> Document list" where
  "corpus k = [\<lparr>page_content = [char_of k], metadata = [], hashable = True\<rparr>]"

definition load_all :: "env \<Rightarrow> nat list \<Rightarrow> state \<Rightarrow> state" where
  "load_all ev ks st = fold (\<lambda>k s. snd (load_FAISS ev (corpus k) s)) ks st"

section \<open>Facts about the string functions\<close>

lemma lower_code_idem: "lower_code (lower_code n) = lower_code n"
  by (simp add: lower_code_def)

lemma lower_code_lt: "n < 256 \<Longrightarrow> lower_code n < 256"
  by (simp add: lower_code_def)

lemma of_char_lower: "of_char (py_lower_char c) = lower_code (of_char c)"
proof -
  have "(of_char c :: nat) < 256" by simp
  then have "lower_code (of_char c) < 256" by (rule lower_code_lt)
  then show ?thesis by (simp add: py_lower_char_def)
qed

lemma py_lower_char_idem: "py_lower_char (py_lower_char c) = py_lower_char c"
proof -
  have "py_lower_char (py_lower_char c) = char_of (lower_code (lower_code (of_char c)))"
    unfolding py_lower_char_def[of "py_lower_char c"] of_char_lower ..
  then show ?thesis by (simp add: lower_code_idem py_lower_char_def)
qed

lemma py_lower_idem: "py_lower (py_lower s) = py_lower s"
  by (simp add: py_lower_def py_lower_char_idem)

lemma isspace_lower_code: "isspace_code (lower_code n) = isspace_code n"
  by (simp add: isspace_code_def lower_code_def)

lemma py_isspace_lower: "py_isspace (py_lower_char c) = py_isspace c"
  by (simp add: py_isspace_def of_char_lower isspace_lower_code)

lemma dropWhile_isspace_lower:
  "dropWhile py_isspace (map py_lower_char s) = map py_lower_char (dropWhile py_isspace s)"
  by (induction s) (simp_all add: py_isspace_lower)

lemma py_strip_lower: "py_strip (py_lower s) = py_lower (py_strip s)"
proof -
  have "rev (dropWhile py_isspace (rev (dropWhile py_isspace (map py_lower_char s)))) =
        rev (dropWhile py_isspace (map py_lower_char (rev (dropWhile py_isspace s))))"
    by (simp only: dropWhile_isspace_lower rev_map)
  also have "\<dots> = map py_lower_char (rev (dropWhile py_isspace (rev (dropWhile py_isspace s))))"
    by (simp only: dropWhile_isspace_lower rev_map)
  finally show ?thesis by (simp only: py_strip_def py_lower_def)
qed

section \<open>Case-insensitivity of the scorer\<close>

text \<open>
  C9. The score of a query and a content is the score of the lower-cased query and the
  lower-cased content; in particular the score of "Cat" in "The CAT sat" is the score
  of "cat" in "the cat sat".
\<close>

theorem lexical_score_case_insensitive:
  "lexical_score query content = lexical_score (py_lower query) (py_lower content)
   \<and> lexical_score ''Cat'' ''The CAT sat'' = lexical_score ''cat'' ''the cat sat''"
proof -
  have g: "lexical_score q c = lexical_score (py_lower q) (py_lower c)" for q c
    by (simp add: lexical_score_def Let_def py_lower_idem)
  have "py_lower ''Cat'' = ''cat''" by code_simp
  moreover have "py_lower ''The CAT sat'' = ''the cat sat''" by code_simp
  ultimately have "lexical_score ''Cat'' ''The CAT sat'' = lexical_score ''cat'' ''the cat sat''"
    using g [of "''Cat''" "''The CAT sat''"] by simp
  with g show ?thesis by blast
qed

theorem lexical_score_case_insensitive_witness:
  "lexical_score ''Hot DOG'' ''A dog is hot'' = lexical_score ''hot dog'' ''a dog is hot''
   \<and> lexical_score ''hot dog'' ''a dog is hot'' = 2"
proof -
  have "py_lower ''Hot DOG'' = ''hot dog''" by code_simp
  moreover have "py_lower ''A dog is hot'' = ''a dog is hot''" by code_simp
  moreover have "lexical_score ''hot dog'' ''a dog is hot'' = 2" by code_simp
  ultimately show ?thesis
    using lexical_score_case_insensitive [of "''Hot DOG''" "''A dog is hot''"] by simp
qed

section \<open>The scorer and its reference definition\<close>

subsection \<open>Counting from left to right\<close>

lemma leftmost_disjoint_skip:
  "\<forall>p\<in>set ps. p < b \<Longrightarrow> leftmost_disjoint len b (ps @ qs) = leftmost_disjoint len b qs"
  by (induction ps) simp_all

lemma leftmost_disjoint_shift:
  "leftmost_disjoint len (b + k) (map (\<lambda>p. p + k) ps) = leftmost_disjoint len b ps"
proof (induction ps arbitrary: b)
  case Nil
  show ?case by simp
next
  case (Cons p ps)
  have "leftmost_disjoint len (p + k + len) (map (\<lambda>p. p + k) ps)
        = leftmost_disjoint len (p + len) ps"
    using Cons.IH [of "p + len"] by (simp add: add.commute add.left_commute)
  with Cons.IH [of b] show ?case by simp
qed

lemma leftmost_disjoint_bound:
  "\<forall>p\<in>set ps. b' \<le> p \<Longrightarrow> b \<le> b' \<Longrightarrow> leftmost_disjoint len b ps = leftmost_disjoint len b' ps"
  by (cases ps) simp_all

lemma leftmost_disjoint_all:
  "sorted ps \<Longrightarrow> \<forall>p\<in>set ps. b \<le> p \<Longrightarrow> leftmost_disjoint 0 b ps = length ps"
  by (induction ps arbitrary: b) simp_all

lemma positions_from:
  assumes "k \<le> length s"
  shows "filter (\<lambda>i. take len (drop i s) = sub) [k..<Suc (length s)]
         = map (\<lambda>p. p + k) (filter (\<lambda>i. take len (drop i (drop k s)) = sub) [0..<Suc (length s - k)])"
proof -
  have "[k..<Suc (length s)] = map (\<lambda>p. p + k) [0..<Suc (length s - k)]"
    using assms by (simp add: map_add_upt del: upt_Suc)
  then show ?thesis
    by (simp add: filter_map comp_def del: upt_Suc)
qed

lemma leftmost_disjoint_drop:
  assumes "b \<le> length s"
  shows "leftmost_disjoint (length sub) b (occurrence_positions sub s)
         = leftmost_disjoint (length sub) 0 (occurrence_positions sub (drop b s))"
proof -
  let ?m = "\<lambda>i. take (length sub) (drop i s) = sub"
  have split: "[0..<Suc (length s)] = [0..<b] @ [b..<Suc (length s)]"
    using assms by (metis le_SucI upt_add_eq_append le_add_diff_inverse zero_le)
  have "occurrence_positions sub s = filter ?m [0..<b] @ filter ?m [b..<Suc (length s)]"
    unfolding occurrence_positions_def by (subst split) simp
  then have "leftmost_disjoint (length sub) b (occurrence_positions sub s)
        = leftmost_disjoint (length sub) b (filter ?m [b..<Suc (length s)])"
    by (simp add: leftmost_disjoint_skip)
  also have "\<dots> = leftmost_disjoint (length sub) (0 + b)
        (map (\<lambda>p. p + b) (occurrence_positions sub (drop b s)))"
    using assms by (simp add: positions_from occurrence_positions_def del: upt_Suc)
  also have "\<dots> = leftmost_disjoint (length sub) 0 (occurrence_positions sub (drop b s))"
    by (rule leftmost_disjoint_shift)
  finally show ?thesis .
qed

lemma positions_empty_sub: "occurrence_positions [] s = [0..<Suc (length s)]"
  by (simp add: occurrence_positions_def del: upt_Suc)

lemma positions_short:
  assumes "length s < length sub"
  shows "occurrence_positions sub s = []"
proof -
  have "take (length sub) (drop i s) \<noteq> sub" for i
  proof
    assume "take (length sub) (drop i s) = sub"
    then have "length (take (length sub) (drop i s)) = length sub" by simp
    with assms show False by simp
  qed
  then show ?thesis by (simp add: occurrence_positions_def del: upt_Suc)
qed

lemma positions_head:
  "occurrence_positions sub s =
     (if take (length sub) s = sub then [0] else [])
     @ filter (\<lambda>i. take (length sub) (drop i s) = sub) [Suc 0..<Suc (length s)]"
proof -
  have "[0..<Suc (length s)] = 0 # [Suc 0..<Suc (length s)]"
    by (simp add: upt_conv_Cons del: upt_Suc)
  then show ?thesis by (simp add: occurrence_positions_def del: upt_Suc)
qed

lemma py_count_nonoverlapping: "py_count s sub = nonoverlapping_occurrences sub s"
proof (induction s sub rule: py_count.induct)
  case (1 s sub)
  let ?len = "length sub"
  let ?rest = "filter (\<lambda>i. take ?len (drop i s) = sub) [Suc 0..<Suc (length s)]"
  show ?case
  proof (cases "sub = []")
    case True
    have "leftmost_disjoint 0 0 [0..<Suc (length s)] = length [0..<Suc (length s)]"
      by (rule leftmost_disjoint_all) (simp_all del: upt_Suc)
    moreover have "py_count s sub = Suc (length s)"
      by (subst py_count.simps) (simp add: True)
    ultimately show ?thesis
      using True by (simp add: nonoverlapping_occurrences_def positions_empty_sub del: upt_Suc)
  next
    case nonempty: False
    show ?thesis
    proof (cases "length s < length sub")
      case True
      then show ?thesis
        using nonempty by (simp add: py_count.simps [of s sub] nonoverlapping_occurrences_def
            positions_short)
    next
      case long: False
      have rest_ge: "\<forall>p\<in>set ?rest. Suc 0 \<le> p" by auto
      have len_pos: "0 < ?len" using nonempty by simp
      have len_le: "?len \<le> length s" using long by simp
      show ?thesis
      proof (cases "take ?len s = sub")
        case True
        have pos: "occurrence_positions sub s = 0 # ?rest"
          using True by (simp add: positions_head [of sub s])
        have "py_count s sub = Suc (py_count (drop ?len s) sub)"
          using nonempty long True by (simp add: py_count.simps [of s sub])
        also have "py_count (drop ?len s) sub = nonoverlapping_occurrences sub (drop ?len s)"
          using "1.IH"(1) nonempty long True by simp
        also have "\<dots> = leftmost_disjoint ?len ?len (occurrence_positions sub s)"
          using leftmost_disjoint_drop [OF len_le] by (simp add: nonoverlapping_occurrences_def)
        also have "\<dots> = leftmost_disjoint ?len ?len ?rest"
          using len_pos by (simp add: pos)
        finally show ?thesis
          by (simp add: nonoverlapping_occurrences_def pos)
      next
        case False
        have pos: "occurrence_positions sub s = ?rest"
          using False by (simp add: positions_head [of sub s])
        have one_le: "Suc 0 \<le> length s" using nonempty len_le by (cases sub) simp_all
        have "py_count s sub = py_count (tl s) sub"
          using nonempty long False by (simp add: py_count.simps [of s sub])
        also have "\<dots> = nonoverlapping_occurrences sub (tl s)"
          using "1.IH"(2) nonempty long False by simp
        also have "\<dots> = leftmost_disjoint ?len 0 (occurrence_positions sub (drop (Suc 0) s))"
          by (simp add: nonoverlapping_occurrences_def drop_Suc)
        also have "\<dots> = leftmost_disjoint ?len (Suc 0) (occurrence_positions sub s)"
          using leftmost_disjoint_drop [OF one_le, of sub] by simp
        also have "\<dots> = leftmost_disjoint ?len 0 (occurrence_positions sub s)"
          unfolding pos by (rule leftmost_disjoint_bound [symmetric, OF rest_ge]) simp
        finally show ?thesis
          by (simp add: nonoverlapping_occurrences_def)
      qed
    qed
  qed
qed

lemma py_split_nonempty: "t \<in> set (py_split s) \<Longrightarrow> t \<noteq> []"
proof (induction s rule: py_split.induct)
  case (1 s)
  show ?case
  proof (cases "dropWhile py_isspace s")
    case Nil
    with "1.prems" show ?thesis by (simp add: py_split.simps [of s])
  next
    case (Cons c cs)
    with "1.prems" "1.IH" [OF Cons] show ?thesis
      by (auto simp: py_split.simps [of s])
  qed
qed

lemma count_terms_sum:
  "count_terms ts c acc = acc + sum_list (map (py_count c) ts)"
  by (induction ts arbitrary: acc) simp_all

lemma py_count_in_empty: "sub \<noteq> [] \<Longrightarrow> py_count [] sub = 0"
  by (subst py_count.simps) simp

lemma lexical_score_refines:
  "lexical_score query content = spec_score_nonoverlapping query content"
proof -
  have "real (sum_list (map (py_count c) ts))
        = sum_list (map (\<lambda>t. real (nonoverlapping_occurrences t c)) ts)" for c ts
    by (induction ts) (simp_all add: py_count_nonoverlapping)
  then show ?thesis
    by (simp add: lexical_score_def spec_score_nonoverlapping_def Let_def
        py_strip_lower count_terms_sum)
qed

lemma lexical_score_empty_query: "lexical_score [] content = 0"
  by (simp add: lexical_score_def py_lower_def py_strip_def)

lemma lexical_score_empty_content: "lexical_score query [] = 0"
proof -
  have z: "sum_list (map (py_count []) ts) = 0" if "\<forall>t\<in>set ts. t \<noteq> []" for ts
    using that by (induction ts) (simp_all add: py_count_in_empty)
  have ne: "\<forall>t\<in>set (py_split q). t \<noteq> []" for q
    using py_split_nonempty by blast
  have "count_terms (py_split q) [] 0 = 0" for q
    using z [OF ne, of q] by (simp add: count_terms_sum)
  then show ?thesis
    by (simp add: lexical_score_def Let_def py_lower_def)
qed


text \<open>
  C2, as the specification states it, fails where occurrences overlap:
  \<open>str.count\<close> resumes behind each match, so "aa" is counted twice in "aaaa", not
  three times.
\<close>

theorem lexical_score_overlap_counterexample:
  "lexical_score ''aa'' ''aaaa'' \<noteq> 3
   \<and> spec_score ''aa'' ''aaaa'' = 3
   \<and> lexical_score ''aa'' ''aaaa'' \<noteq> spec_score ''aa'' ''aaaa''"
proof -
  have a: "lexical_score ''aa'' ''aaaa'' = 2" by code_simp
  have b: "spec_score ''aa'' ''aaaa'' = 3" by code_simp
  show ?thesis by (simp add: a b)
qed

text \<open>
  C2, amended. The score is 0 when the query is empty after trimming and
  lower-casing; otherwise it is the sum, over the whitespace-split terms of the
  normalized query, of the number of non-overlapping occurrences (counted from left to
  right, the scan resuming behind each match) of the term in the lower-cased content.
  The score of the empty query is 0 for every content, the score in the empty content
  is 0 for every query, and the score of "aa" in "aaaa" is 2.
\<close>

theorem lexical_score_reference:
  "lexical_score query content = spec_score_nonoverlapping query content
   \<and> lexical_score [] content = 0
   \<and> lexical_score query [] = 0
   \<and> lexical_score ''aa'' ''aaaa'' = 2"
proof -
  have "lexical_score ''aa'' ''aaaa'' = 2" by code_simp
  then show ?thesis
    by (simp only: lexical_score_refines [symmetric] lexical_score_empty_query
        lexical_score_empty_content simp_thms)
qed

theorem lexical_score_reference_witness:
  "lexical_score ''Hot  dog'' ''hothot DOG'' = 3
   \<and> spec_score_nonoverlapping ''Hot  dog'' ''hothot DOG'' = 3"
proof -
  have "lexical_score ''Hot  dog'' ''hothot DOG'' = 3" by code_simp
  then show ?thesis
    using lexical_score_reference [of "''Hot  dog''" "''hothot DOG''"] by simp
qed


section \<open>Facts about floating-point rounding\<close>

lemma round_half_even_of_int: "round_half_even (of_int n) = n"
  by (simp add: round_half_even_def)

lemma round_half_even_bounds:
  "\<lfloor>y\<rfloor> \<le> round_half_even y" "round_half_even y \<le> \<lfloor>y\<rfloor> + 1"
  by (simp_all add: round_half_even_def Let_def)

lemma round_half_even_mono:
  assumes "y \<le> z"
  shows "round_half_even y \<le> round_half_even z"
proof (cases "\<lfloor>y\<rfloor> = \<lfloor>z\<rfloor>")
  case True
  with assms show ?thesis
    by (auto simp: round_half_even_def Let_def)
next
  case False
  with assms have "\<lfloor>y\<rfloor> < \<lfloor>z\<rfloor>"
    using floor_mono [of y z] by linarith
  then have "round_half_even y \<le> \<lfloor>z\<rfloor>"
    using round_half_even_bounds(2) [of y] by linarith
  also have "\<dots> \<le> round_half_even z"
    by (rule round_half_even_bounds)
  finally show ?thesis .
qed

lemma round_half_even_le_int: "y \<le> of_int n \<Longrightarrow> round_half_even y \<le> n"
  using round_half_even_mono [of y "of_int n"] by (simp add: round_half_even_of_int)

lemma round_half_even_ge_int: "of_int n \<le> y \<Longrightarrow> n \<le> round_half_even y"
  using round_half_even_mono [of "of_int n" y] by (simp add: round_half_even_of_int)

lemma ulp_pos: "0 < ulp fmt x"
  by (simp add: ulp_def)

lemma powr_powi_2: "(2::real) powr real_of_int k = 2 powi k"
  by (simp add: powr_real_of_int')

lemma powr_powi_2_Suc: "(2::real) powr (real_of_int k + 1) = 2 powi (k + 1)"
  using powr_powi_2 [of "k + 1"] by simp

lemma floor_log2_bounds:
  assumes "0 < x"
  shows "2 powi \<lfloor>log 2 x\<rfloor> \<le> x" "x < 2 powi (\<lfloor>log 2 x\<rfloor> + 1)"
proof -
  have "\<lfloor>log 2 x\<rfloor> = \<lfloor>log 2 x\<rfloor>" ..
  then have "2 powr real_of_int \<lfloor>log 2 x\<rfloor> \<le> x \<and> x < 2 powr real_of_int (\<lfloor>log 2 x\<rfloor> + 1)"
    using assms by (subst (asm) floor_log_eq_powr_iff) simp_all
  then show "2 powi \<lfloor>log 2 x\<rfloor> \<le> x" "x < 2 powi (\<lfloor>log 2 x\<rfloor> + 1)"
    by (simp_all add: powr_powi_2 powr_powi_2_Suc)
qed

lemma floor_log2_eq:
  assumes "2 powi k \<le> x" "x < 2 powi (k + 1)"
  shows "\<lfloor>log 2 x\<rfloor> = k"
proof -
  have "0 < (2::real) powi k" by simp
  with assms have "0 < x" by linarith
  then show ?thesis
    using assms by (subst floor_log_eq_powr_iff) (simp_all add: powr_powi_2 powr_powi_2_Suc)
qed

lemma float_exponent_mono:
  assumes "0 < x" "x \<le> y"
  shows "float_exponent fmt x \<le> float_exponent fmt y"
proof -
  have "log 2 x \<le> log 2 y" using assms by simp
  then have "\<lfloor>log 2 x\<rfloor> \<le> \<lfloor>log 2 y\<rfloor>" by (rule floor_mono)
  with assms show ?thesis by (simp add: float_exponent_def)
qed

lemma less_next_binade:
  assumes "0 < x"
  shows "x < 2 powi (float_exponent fmt x + 1)"
proof -
  have "x < 2 powi (\<lfloor>log 2 x\<rfloor> + 1)" using assms by (rule floor_log2_bounds)
  also have "\<dots> \<le> 2 powi (float_exponent fmt x + 1)"
    using assms by (intro power_int_increasing) (simp_all add: float_exponent_def)
  finally show ?thesis .
qed

lemma ge_binade:
  assumes "0 < x" "emin fmt < float_exponent fmt x"
  shows "2 powi (float_exponent fmt x) \<le> x"
proof -
  from assms have "float_exponent fmt x = \<lfloor>log 2 x\<rfloor>"
    by (simp add: float_exponent_def max_def split: if_splits)
  with floor_log2_bounds(1) [OF assms(1)] show ?thesis by simp
qed

lemma powi_add2: "(2::real) powi a * 2 powi b = 2 powi (a + b)"
  by (simp add: power_int_add)

lemma powi_split:
  "(2::real) powi a / 2 powi (b - c) = 2 powi (a - b + c)"
proof -
  have "(2::real) powi (a - b + c) * 2 powi (b - c) = 2 powi a"
    by (simp add: powi_add2)
  then show ?thesis by (simp add: field_simps)
qed

lemma powi_nat: "0 \<le> k \<Longrightarrow> (2::real) powi k = of_int (2 ^ nat k)"
  by (simp add: power_int_nonneg_exp)

lemma round_nearest_le_next:
  assumes "0 < x"
  shows "round_nearest fmt x \<le> 2 powi (float_exponent fmt x + 1)"
proof -
  let ?e = "float_exponent fmt x" and ?p = "int (precision fmt)"
  let ?u = "ulp fmt x"
  have u: "?u = 2 powi (?e - (?p - 1))" by (simp add: ulp_def)
  have "x / ?u \<le> 2 powi (?e + 1) / ?u"
    using less_next_binade [OF assms, of fmt] ulp_pos [of fmt x]
    by (simp add: divide_right_mono)
  also have "2 powi (?e + 1) / ?u = 2 powi ?p"
    unfolding u by (simp add: powi_split)
  also have "\<dots> = of_int (2 ^ precision fmt)" by simp
  finally have "round_half_even (x / ?u) \<le> 2 ^ precision fmt"
    by (rule round_half_even_le_int)
  then have "of_int (round_half_even (x / ?u)) * ?u \<le> of_int (2 ^ precision fmt) * ?u"
    using ulp_pos [of fmt x] by (simp add: mult_right_mono)
  also have "of_int (2 ^ precision fmt) * ?u = 2 powi ?p * 2 powi (?e - (?p - 1))"
    unfolding u by simp
  also have "\<dots> = 2 powi (?p + (?e - (?p - 1)))"
    by (rule powi_add2)
  also have "?p + (?e - (?p - 1)) = ?e + 1" by simp
  finally show ?thesis using assms by (simp add: round_nearest_def)
qed

lemma round_nearest_ge_binade:
  assumes "0 < x" "2 powi (float_exponent fmt x) \<le> x" "0 < precision fmt"
  shows "2 powi (float_exponent fmt x) \<le> round_nearest fmt x"
proof -
  let ?e = "float_exponent fmt x" and ?p = "int (precision fmt)"
  let ?u = "ulp fmt x"
  have u: "?u = 2 powi (?e - (?p - 1))" by (simp add: ulp_def)
  have "2 powi ?e / ?u = 2 powi (?p - 1)"
    unfolding u using powi_split [of ?e ?e "?p - 1"] by simp
  also have "\<dots> = of_int (2 ^ nat (?p - 1))"
    using assms(3) by (intro powi_nat) simp
  finally have q: "2 powi ?e / ?u = of_int (2 ^ nat (?p - 1))" .
  have "2 powi ?e / ?u \<le> x / ?u"
    using assms(2) ulp_pos [of fmt x] by (simp add: divide_right_mono)
  then have "2 ^ nat (?p - 1) \<le> round_half_even (x / ?u)"
    unfolding q by (rule round_half_even_ge_int)
  then have "of_int (2 ^ nat (?p - 1)) * ?u \<le> of_int (round_half_even (x / ?u)) * ?u"
    using ulp_pos [of fmt x] by (simp add: mult_right_mono)
  moreover have "of_int (2 ^ nat (?p - 1)) * ?u = 2 powi ?e"
    using q ulp_pos [of fmt x] by (simp add: field_simps)
  ultimately show ?thesis using assms(1) by (simp add: round_nearest_def)
qed

lemma round_nearest_nonneg:
  assumes "0 \<le> x"
  shows "0 \<le> round_nearest fmt x"
proof (cases "x = 0")
  case True
  then show ?thesis by (simp add: round_nearest_def)
next
  case False
  with assms have "0 \<le> x / ulp fmt x" using ulp_pos [of fmt x] by simp
  then have "0 \<le> round_half_even (x / ulp fmt x)"
    using round_half_even_ge_int [of 0] by simp
  with False show ?thesis using ulp_pos [of fmt x] by (simp add: round_nearest_def)
qed

lemma round_nearest_mono:
  assumes "0 < x" "x \<le> y" "0 < precision fmt"
  shows "round_nearest fmt x \<le> round_nearest fmt y"
proof (cases "float_exponent fmt x = float_exponent fmt y")
  case True
  then have u: "ulp fmt x = ulp fmt y" by (simp add: ulp_def)
  have "x / ulp fmt y \<le> y / ulp fmt y"
    using assms(2) ulp_pos [of fmt y] by (simp add: divide_right_mono)
  then have "round_half_even (x / ulp fmt y) \<le> round_half_even (y / ulp fmt y)"
    by (rule round_half_even_mono)
  then have "of_int (round_half_even (x / ulp fmt y)) * ulp fmt y
             \<le> of_int (round_half_even (y / ulp fmt y)) * ulp fmt y"
    using ulp_pos [of fmt y] by (simp add: mult_right_mono)
  with assms(1,2) u show ?thesis by (simp add: round_nearest_def)
next
  case False
  from assms have y: "0 < y" by simp
  from False float_exponent_mono [OF assms(1,2), of fmt]
  have lt: "float_exponent fmt x < float_exponent fmt y" by simp
  have "emin fmt \<le> float_exponent fmt x" by (simp add: float_exponent_def)
  with lt have "emin fmt < float_exponent fmt y" by simp
  then have b: "2 powi (float_exponent fmt y) \<le> y" using y ge_binade by blast
  have "round_nearest fmt x \<le> 2 powi (float_exponent fmt x + 1)"
    using assms(1) by (rule round_nearest_le_next)
  also have "\<dots> \<le> 2 powi (float_exponent fmt y)"
    using lt by (intro power_int_increasing) simp_all
  also have "\<dots> \<le> round_nearest fmt y"
    using y b assms(3) by (rule round_nearest_ge_binade)
  finally show ?thesis .
qed

lemma round_nearest_power_of_2:
  assumes "emin fmt \<le> k" "0 < precision fmt"
  shows "round_nearest fmt (2 powi k) = 2 powi k"
proof -
  let ?x = "(2::real) powi k" and ?p = "int (precision fmt)"
  have "?x < 2 powi (k + 1)"
    by (intro power_int_strict_increasing) simp_all
  then have "\<lfloor>log 2 ?x\<rfloor> = k" by (intro floor_log2_eq) simp_all
  with assms(1) have e: "float_exponent fmt ?x = k"
    by (simp add: float_exponent_def)
  then have u: "ulp fmt ?x = 2 powi (k - (?p - 1))" by (simp add: ulp_def)
  have "?x / ulp fmt ?x = 2 powi (?p - 1)"
    unfolding u using powi_split [of k k "?p - 1"] by simp
  also have "\<dots> = of_int (2 ^ nat (?p - 1))"
    using assms(2) by (intro powi_nat) simp
  finally have q: "?x / ulp fmt ?x = of_int (2 ^ nat (?p - 1))" .
  have "of_int (round_half_even (?x / ulp fmt ?x)) * ulp fmt ?x
        = (?x / ulp fmt ?x) * ulp fmt ?x"
    unfolding q round_half_even_of_int ..
  also have "\<dots> = ?x" using ulp_pos [of fmt ?x] by simp
  finally show ?thesis by (simp add: round_nearest_def)
qed

subsection \<open>The order of floats\<close>

lemma float_le_refl: "a \<noteq> NaN \<Longrightarrow> float_le a a"
  by (simp add: float_le_def)

lemma float_le_total: "a \<noteq> NaN \<Longrightarrow> b \<noteq> NaN \<Longrightarrow> \<not> float_less a b \<Longrightarrow> float_le b a"
  by (cases a; cases b) (auto simp: float_le_def)

lemma float_less_imp_le: "float_less a b \<Longrightarrow> float_le a b"
  by (simp add: float_le_def)

lemma float_le_trans: "float_le a b \<Longrightarrow> float_le b c \<Longrightarrow> float_le a c"
  by (cases a; cases b; cases c) (auto simp: float_le_def)

lemma float_le_not_NaN: "float_le a b \<Longrightarrow> a \<noteq> NaN \<and> b \<noteq> NaN"
  by (cases a; cases b) (auto simp: float_le_def)

lemma float_le_Finite [simp]: "float_le (Finite x) (Finite y) \<longleftrightarrow> x \<le> y"
  by (auto simp: float_le_def)


subsection \<open>The formats\<close>

lemma format_of_precision: "0 < precision (format_of t)"
  by (cases t) (simp_all add: binary64_def binary32_def)

lemma format_of_emin: "emin (format_of t) \<le> - 1"
  by (cases t) (simp_all add: binary64_def binary32_def)

lemma format_of_emax: "1 \<le> emax (format_of t)"
  by (cases t) (simp_all add: binary64_def binary32_def)

lemma max_finite_ge_2:
  assumes "0 < precision fmt" "1 \<le> emax fmt"
  shows "2 \<le> max_finite fmt"
proof -
  have "(2::real) powi (1 - int (precision fmt)) \<le> 2 powi 0"
    using assms(1) by (intro power_int_increasing) simp_all
  then have a: "1 \<le> 2 - (2::real) powi (1 - int (precision fmt))" by simp
  have "(2::real) powi 1 \<le> 2 powi (emax fmt)"
    using assms(2) by (intro power_int_increasing) simp_all
  then have b: "2 \<le> (2::real) powi (emax fmt)" by simp
  have "1 * 2 \<le> (2 - (2::real) powi (1 - int (precision fmt))) * 2 powi (emax fmt)"
    using a b by (intro mult_mono) simp_all
  then show ?thesis by (simp add: max_finite_def)
qed

lemma round_nearest_1:
  assumes "0 < precision fmt" "emin fmt \<le> - 1"
  shows "round_nearest fmt 1 = 1"
  using round_nearest_power_of_2 [of fmt 0] assms by simp

lemma round_nearest_2:
  assumes "0 < precision fmt" "emin fmt \<le> - 1"
  shows "round_nearest fmt 2 = 2"
  using round_nearest_power_of_2 [of fmt 1] assms by simp

lemma round_nearest_half:
  assumes "0 < precision fmt" "emin fmt \<le> - 1"
  shows "round_nearest fmt (1 / 2) = 1 / 2"
  using round_nearest_power_of_2 [of fmt "- 1"] assms by (simp add: power_int_minus_divide)

subsection \<open>The score of a non-negative distance\<close>

lemma one_le_round_one_plus:
  assumes "0 \<le> x"
  shows "1 \<le> round_nearest (format_of t) (1 + x)"
proof -
  have "round_nearest (format_of t) 1 \<le> round_nearest (format_of t) (1 + x)"
    using assms by (intro round_nearest_mono format_of_precision) simp_all
  then show ?thesis
    by (simp add: round_nearest_1 format_of_precision format_of_emin)
qed

lemma round_recip_bounds:
  assumes "1 \<le> r"
  shows "0 \<le> round_nearest (format_of t) (1 / r)" "round_nearest (format_of t) (1 / r) \<le> 1"
proof -
  from assms have pos: "0 < 1 / r" and le: "1 / r \<le> 1" by simp_all
  show "0 \<le> round_nearest (format_of t) (1 / r)"
    using pos by (intro round_nearest_nonneg) simp
  have "round_nearest (format_of t) (1 / r) \<le> round_nearest (format_of t) 1"
    using pos le by (intro round_nearest_mono format_of_precision)
  then show "round_nearest (format_of t) (1 / r) \<le> 1"
    by (simp add: round_nearest_1 format_of_precision format_of_emin)
qed

lemma float_round_unit:
  assumes "0 \<le> q" "q \<le> 1" "round_nearest (format_of t) y = q"
  shows "float_round (format_of t) y = Finite q"
proof -
  have "2 \<le> max_finite (format_of t)"
    by (intro max_finite_ge_2 format_of_precision format_of_emax)
  with assms show ?thesis by (simp add: float_round_def Let_def)
qed

lemma score_of_distance_form:
  assumes "0 \<le> x"
  shows "score_of_distance (t, Finite x) =
         Inr (Finite (if max_finite (format_of t) < round_nearest (format_of t) (1 + x) then 0
                      else round_nearest (format_of t) (1 / round_nearest (format_of t) (1 + x))))"
proof -
  let ?fmt = "format_of t"
  let ?r = "round_nearest ?fmt (1 + x)"
  have r: "1 \<le> ?r" using assms by (rule one_le_round_one_plus)
  have m: "2 \<le> max_finite ?fmt"
    by (intro max_finite_ge_2 format_of_precision format_of_emax)
  show ?thesis
  proof (cases "max_finite ?fmt < ?r")
    case True
    then have "one_plus (t, Finite x) = (t, PosInf)"
      by (simp add: one_plus_def float_round_def Let_def)
    with True show ?thesis by (simp add: score_of_distance_def one_over_def)
  next
    case False
    with r m have "one_plus (t, Finite x) = (t, Finite ?r)"
      by (simp add: one_plus_def float_round_def Let_def)
    moreover have "float_round ?fmt (1 / ?r) = Finite (round_nearest ?fmt (1 / ?r))"
      using round_recip_bounds [OF r, of t] by (intro float_round_unit) simp_all
    ultimately show ?thesis
      using False r by (simp add: score_of_distance_def one_over_def)
  qed
qed




lemma score_of_distance_0: "score_of_distance (t, Finite 0) = Inr (Finite 1)"
proof -
  have m: "2 \<le> max_finite (format_of t)"
    by (intro max_finite_ge_2 format_of_precision format_of_emax)
  have "round_nearest (format_of t) 1 = 1"
    by (simp add: round_nearest_1 format_of_precision format_of_emin)
  with m show ?thesis
    using score_of_distance_form [of 0 t] by simp
qed

lemma score_of_distance_1: "score_of_distance (t, Finite 1) = Inr (Finite (1 / 2))"
proof -
  have m: "2 \<le> max_finite (format_of t)"
    by (intro max_finite_ge_2 format_of_precision format_of_emax)
  have "round_nearest (format_of t) 2 = 2" "round_nearest (format_of t) (1 / 2) = 1 / 2"
    by (simp_all add: round_nearest_2 round_nearest_half format_of_precision format_of_emin)
  with m show ?thesis
    using score_of_distance_form [of 1 t] by simp
qed



subsection \<open>The literal 0.9\<close>

lemma float_literal_09: "float_literal (9 / 10) = Finite (8106479329266893 / 2 ^ 53)"
proof -
  define x :: real where "x = 9 / 10"
  have "(2::real) powi (- 1) \<le> x" "x < 2 powi (- 1 + 1)"
    by (simp_all add: x_def power_int_minus_divide)
  then have "\<lfloor>log 2 x\<rfloor> = - 1" by (rule floor_log2_eq)
  moreover have "\<bar>x\<bar> = x" by (simp add: x_def)
  ultimately have e: "float_exponent binary64 x = - 1"
    by (simp add: float_exponent_def binary64_def)
  have nz: "x \<noteq> 0" by (simp add: x_def)
  have p: "precision binary64 = 53" by (simp add: binary64_def)
  have u: "ulp binary64 x = 1 / 2 ^ 53"
    by (simp add: ulp_def e p power_int_minus_divide)
  have q: "x / ulp binary64 x = 8106479329266892 + 4 / 5"
    unfolding u by (simp add: x_def)
  have r: "round_half_even (x / ulp binary64 x) = 8106479329266893"
    unfolding q by (simp add: round_half_even_def Let_def floor_eq_iff)
  have "round_nearest binary64 x = of_int (round_half_even (x / ulp binary64 x)) * ulp binary64 x"
    using nz by (simp add: round_nearest_def)
  also have "\<dots> = of_int 8106479329266893 * ulp binary64 x" by (simp only: r)
  also have "\<dots> = 8106479329266893 / 2 ^ 53" by (simp add: u)
  finally have rn: "round_nearest binary64 x = 8106479329266893 / 2 ^ 53" .
  have "2 \<le> max_finite binary64"
    by (intro max_finite_ge_2) (simp_all add: binary64_def)
  then have "float_round binary64 x = Finite (8106479329266893 / 2 ^ 53)"
    by (simp add: float_round_def Let_def rn)
  then show ?thesis by (simp add: float_literal_def x_def)
qed

lemma float_literal_09_bounds:
  "float_le (Finite 0) (float_literal (9 / 10))" "float_le (float_literal (9 / 10)) (Finite 1)"
  by (simp_all add: float_literal_09)

subsection \<open>Results that passed validation\<close>

lemma SearchResult_init_Inr:
  "SearchResult_init doc sc rs = Inr r \<longleftrightarrow>
     float_le (Finite 0) sc \<and> r = \<lparr>document = doc, score = sc, reason = rs\<rparr>"
  by (auto simp: SearchResult_init_def)

lemma hit_result_Inr:
  "hit_result hit = Inr r \<longleftrightarrow>
     (\<exists>sc. score_of_distance (snd hit) = Inr sc \<and> float_le (Finite 0) sc
           \<and> r = vector_result (fst hit) sc)"
  by (auto simp: hit_result_def SearchResult_init_Inr vector_result_def split: sum.splits)

lemma hit_result_valid: "hit_result hit = Inr r \<Longrightarrow> float_le (Finite 0) (score r)"
  by (auto simp: hit_result_Inr vector_result_def)

lemma append_hits_Inr:
  "append_hits hits acc = Inr rs \<Longrightarrow>
     \<exists>new. rs = acc @ new \<and> list_all2 (\<lambda>h r. hit_result h = Inr r) hits new"
proof (induction hits arbitrary: acc)
  case Nil
  then show ?case by simp
next
  case (Cons hit hits)
  from Cons.prems obtain r where r: "hit_result hit = Inr r"
    and rest: "append_hits hits (acc @ [r]) = Inr rs"
    by (cases "hit_result hit") simp_all
  from Cons.IH [OF rest] obtain new where
    "rs = (acc @ [r]) @ new" "list_all2 (\<lambda>h r. hit_result h = Inr r) hits new"
    by blast
  with r have "rs = acc @ (r # new) \<and> list_all2 (\<lambda>h r. hit_result h = Inr r) (hit # hits) (r # new)"
    by simp
  then show ?case by blast
qed

lemma append_hits_all:
  "list_all2 (\<lambda>h r. hit_result h = Inr r) hits new \<Longrightarrow> append_hits hits acc = Inr (acc @ new)"
proof (induction hits arbitrary: acc new)
  case Nil
  then show ?case by simp
next
  case (Cons hit hits)
  then obtain r rest where "new = r # rest" "hit_result hit = Inr r"
    "list_all2 (\<lambda>h r. hit_result h = Inr r) hits rest"
    by (cases new) simp_all
  with Cons.IH [of rest "acc @ [r]"] show ?case by simp
qed

lemma list_all2_valid:
  "list_all2 (\<lambda>h r. hit_result h = Inr r) hits new \<Longrightarrow>
     list_all (\<lambda>r. float_le (Finite 0) (score r)) new"
  by (induction hits new rule: list_all2_induct) (simp_all add: hit_result_valid)

subsection \<open>The sort\<close>

lemma set_insort_reverse: "set (insort_reverse r xs) = insert r (set xs)"
  by (induction xs) auto

lemma mset_insort_reverse: "mset (insort_reverse r xs) = add_mset r (mset xs)"
  by (induction xs) simp_all

lemma mset_sort_by_score: "mset (sort_by_score_reverse rs) = mset rs"
  unfolding sort_by_score_reverse_def
  by (induction rs) (simp_all add: mset_insort_reverse)

lemma set_sort_by_score: "set (sort_by_score_reverse rs) = set rs"
  using mset_sort_by_score [of rs] by (metis set_mset_mset)

lemma length_sort_by_score: "length (sort_by_score_reverse rs) = length rs"
  using mset_sort_by_score [of rs] by (metis size_mset)

lemma sorted_insort_reverse:
  assumes "sorted_wrt (\<lambda>a b. float_le (score b) (score a)) xs"
    and "score r \<noteq> NaN" and "\<forall>x\<in>set xs. score x \<noteq> NaN"
  shows "sorted_wrt (\<lambda>a b. float_le (score b) (score a)) (insort_reverse r xs)"
  using assms
proof (induction xs)
  case Nil
  then show ?case by simp
next
  case (Cons x xs)
  show ?case
  proof (cases "float_less (score r) (score x)")
    case True
    have "sorted_wrt (\<lambda>a b. float_le (score b) (score a)) (insort_reverse r xs)"
      using Cons by simp
    moreover have "\<forall>y\<in>set (insort_reverse r xs). float_le (score y) (score x)"
      using Cons.prems(1) True by (auto simp: set_insort_reverse float_less_imp_le)
    ultimately show ?thesis using True by simp
  next
    case False
    have rx: "float_le (score x) (score r)"
      using False Cons.prems(2,3) by (intro float_le_total) simp_all
    have "\<forall>y\<in>set xs. float_le (score y) (score r)"
      using Cons.prems(1) rx by (auto intro: float_le_trans)
    with rx Cons.prems(1) False show ?thesis by simp
  qed
qed

lemma sorted_sort_by_score:
  assumes "\<forall>r\<in>set rs. score r \<noteq> NaN"
  shows "sorted_wrt (\<lambda>a b. float_le (score b) (score a)) (sort_by_score_reverse rs)"
  using assms unfolding sort_by_score_reverse_def
proof (induction rs)
  case Nil
  show ?case by simp
next
  case (Cons r rs)
  have "set (foldr insort_reverse rs []) = set rs"
    using set_sort_by_score [of rs] by (simp add: sort_by_score_reverse_def)
  with Cons show ?case
    by (simp add: sorted_insort_reverse)
qed

section \<open>Facts about the orchestrator\<close>

lemma search_knowledgegraph_eq: "search_knowledgegraph cq = Inr [graph_result cq]"
  by (simp add: search_knowledgegraph_def SearchResult_init_def graph_result_def
      CypherQuery_str_def Document_init_def float_literal_09_bounds)

lemma graph_results_valid: "list_all (\<lambda>r. float_le (Finite 0) (score r)) (graph_results tq)"
  by (cases tq) (simp_all add: graph_results_def graph_result_def float_literal_09_bounds)

lemma text_to_cypher_state_free:
  "fst (text_to_cypher ev q s) = fst (text_to_cypher ev q s')"
  by (simp add: text_to_cypher_def Let_def split: sum.splits)

lemma search_documents_success:
  assumes "query \<noteq> []"
    and "load_FAISS ev documents st = (Inr store, st1)"
    and "similarity_search_with_score ev (faiss_docs store) query (length documents) = Inr hits"
    and "append_hits hits [] = Inr vr"
    and "fst (text_to_cypher ev query s) = Inr tq"
  shows "fst (search_documents ev query documents st)
         = Inr (sort_by_score_reverse (vr @ graph_results tq))"
proof -
  let ?st2 = "log_call (Call_similarity_search (faiss_id store) query (length documents)) st1"
  have "fst (text_to_cypher ev query ?st2) = Inr tq"
    using assms(5) text_to_cypher_state_free [of ev query ?st2 s] by simp
  then obtain st3 where t: "text_to_cypher ev query ?st2 = (Inr tq, st3)"
    by (cases "text_to_cypher ev query ?st2") simp
  show ?thesis
    using assms(1-4) t
    by (cases tq) (simp_all add: search_documents_def Let_def graph_results_def
        search_knowledgegraph_eq)
qed

lemma search_documents_Inr:
  assumes "query \<noteq> []"
    and "search_documents ev query documents st = (Inr results, st')"
  obtains store st1 hits vr tq where
    "load_FAISS ev documents st = (Inr store, st1)"
    "similarity_search_with_score ev (faiss_docs store) query (length documents) = Inr hits"
    "append_hits hits [] = Inr vr"
    "fst (text_to_cypher ev query st) = Inr tq"
    "results = sort_by_score_reverse (vr @ graph_results tq)"
proof -
  obtain r1 st1 where l: "load_FAISS ev documents st = (r1, st1)"
    by (cases "load_FAISS ev documents st")
  with assms obtain store where r1: "r1 = Inr store"
    by (cases r1) (auto simp: search_documents_def)
  let ?st2 = "log_call (Call_similarity_search (faiss_id store) query (length documents)) st1"
  from assms l r1 obtain hits where
    h: "similarity_search_with_score ev (faiss_docs store) query (length documents) = Inr hits"
    by (cases "similarity_search_with_score ev (faiss_docs store) query (length documents)")
      (auto simp: search_documents_def Let_def)
  from assms l r1 h obtain vr where v: "append_hits hits [] = Inr vr"
    by (cases "append_hits hits []") (auto simp: search_documents_def Let_def)
  obtain r3 st3 where t: "text_to_cypher ev query ?st2 = (r3, st3)"
    by (cases "text_to_cypher ev query ?st2")
  with assms l r1 h v obtain tq where r3: "r3 = Inr tq"
    by (cases r3) (auto simp: search_documents_def Let_def)
  have tq: "fst (text_to_cypher ev query st) = Inr tq"
    using t r3 text_to_cypher_state_free [of ev query st ?st2] by simp
  have "fst (search_documents ev query documents st)
        = Inr (sort_by_score_reverse (vr @ graph_results tq))"
    using assms(1) l [unfolded r1] h v tq by (rule search_documents_success)
  with assms(2) have "results = sort_by_score_reverse (vr @ graph_results tq)" by simp
  with l r1 h v tq show thesis using that by blast
qed

lemma append_hits_valid:
  "append_hits hits [] = Inr vr \<Longrightarrow> list_all (\<lambda>r. float_le (Finite 0) (score r)) vr"
  using append_hits_Inr [of hits "[]" vr] list_all2_valid by auto

lemma valid_not_NaN:
  "list_all (\<lambda>r. float_le (Finite 0) (score r)) rs \<Longrightarrow> \<forall>r\<in>set rs. score r \<noteq> NaN"
  using float_le_not_NaN by (auto simp: list_all_iff)

subsection \<open>Concrete runs\<close>

lemma env_ok_hits_two:
  "similarity_search_with_score env_ok [x, y] q (length [x, y])
     = Inr [(x, (python_float, Finite 0)), (y, (python_float, Finite 1))]"
  by (simp add: env_ok_def)

lemma append_hits_two:
  "append_hits [(x, (t, Finite 0)), (y, (t, Finite 1))] []
     = Inr [vector_result x (Finite 1), vector_result y (Finite (1 / 2))]"
  by (simp add: hit_result_def score_of_distance_0 score_of_distance_1 SearchResult_init_def
      vector_result_def)

lemma load_FAISS_initial:
  assumes "list_all hashable docs"
  shows "load_FAISS env_ok docs initial_state
         = (Inr \<lparr>faiss_id = 0, faiss_docs = docs\<rparr>,
            snd (load_FAISS env_ok docs initial_state))"
  using assms
  by (simp add: load_FAISS_def load_FAISS_uncached_def env_ok_def initial_state_def
      log_call_def Let_def)

lemma text_to_cypher_env_ok:
  "fst (text_to_cypher env_ok q s) = Inr (Some \<lparr>cypher = ''MATCH (n) RETURN n''\<rparr>)"
  by (simp add: text_to_cypher_def env_ok_def Let_def)

lemma sort_three:
  "sort_by_score_reverse
     [vector_result x (Finite 1), vector_result y (Finite (1 / 2)), graph_result cq]
   = [vector_result x (Finite 1), graph_result cq, vector_result y (Finite (1 / 2))]"
  by (simp add: sort_by_score_reverse_def vector_result_def graph_result_def float_literal_09)

lemma run_env_ok_two:
  "fst (search_documents env_ok ''graph'' [hdoc_a, hdoc_b] initial_state)
     = Inr [vector_result hdoc_a (Finite 1),
            graph_result \<lparr>cypher = ''MATCH (n) RETURN n''\<rparr>,
            vector_result hdoc_b (Finite (1 / 2))]"
proof -
  have q: "''graph'' \<noteq> []" by simp
  have h: "list_all hashable [hdoc_a, hdoc_b]" by (simp add: hdoc_a_def hdoc_b_def)
  have s: "similarity_search_with_score env_ok
             (faiss_docs \<lparr>faiss_id = 0, faiss_docs = [hdoc_a, hdoc_b]\<rparr>) ''graph''
             (length [hdoc_a, hdoc_b])
           = Inr [(hdoc_a, (python_float, Finite 0)), (hdoc_b, (python_float, Finite 1))]"
    using env_ok_hits_two [of hdoc_a hdoc_b "''graph''"] by simp
  show ?thesis
    using search_documents_success [OF q load_FAISS_initial [OF h] s append_hits_two
        text_to_cypher_env_ok [of "''graph''" initial_state]]
    by (simp add: graph_results_def sort_three)
qed

lemma run_env_ok_empty:
  "fst (search_documents env_ok ''graph'' [] initial_state)
     = Inr [graph_result \<lparr>cypher = ''MATCH (n) RETURN n''\<rparr>]"
proof -
  have q: "''graph'' \<noteq> []" by simp
  have h: "list_all hashable []" by simp
  have s: "similarity_search_with_score env_ok
             (faiss_docs \<lparr>faiss_id = 0, faiss_docs = []\<rparr>) ''graph'' (length ([] :: Document list))
           = Inr []"
    by (simp add: env_ok_def)
  have a: "append_hits [] [] = Inr []" by simp
  show ?thesis
    using search_documents_success [OF q load_FAISS_initial [OF h] s a
        text_to_cypher_env_ok [of "''graph''" initial_state]]
    by (simp add: graph_results_def sort_by_score_reverse_def)
qed

section \<open>The order of the results\<close>

text \<open>
  C4. Whenever \<open>search_documents\<close> returns a list, with or without graph results in
  it, the list is sorted by score in descending order: the score of every element is
  greater than or equal to the score of every later element, in the order of floats.
\<close>

theorem search_documents_sorted:
  assumes "search_documents ev query documents st = (Inr results, st')"
  shows "sorted_wrt (\<lambda>a b. float_le (score b) (score a)) results"
proof (cases "query = []")
  case True
  with assms show ?thesis by (simp add: search_documents_def)
next
  case False
  from False assms obtain hits vr tq where v: "append_hits hits [] = Inr vr"
    and r: "results = sort_by_score_reverse (vr @ graph_results tq)"
    by (rule search_documents_Inr)
  have "list_all (\<lambda>r. float_le (Finite 0) (score r)) (vr @ graph_results tq)"
    using append_hits_valid [OF v] graph_results_valid [of tq] by simp
  then have "\<forall>r\<in>set (vr @ graph_results tq). score r \<noteq> NaN"
    by (rule valid_not_NaN)
  then show ?thesis unfolding r by (rule sorted_sort_by_score)
qed

theorem search_documents_sorted_witness:
  "fst (search_documents env_ok ''graph'' [hdoc_a, hdoc_b] initial_state)
     = Inr [vector_result hdoc_a (Finite 1),
            graph_result \<lparr>cypher = ''MATCH (n) RETURN n''\<rparr>,
            vector_result hdoc_b (Finite (1 / 2))]
   \<and> sorted_wrt (\<lambda>a b. float_le (score b) (score a))
        [vector_result hdoc_a (Finite 1),
         graph_result \<lparr>cypher = ''MATCH (n) RETURN n''\<rparr>,
         vector_result hdoc_b (Finite (1 / 2))]
   \<and> fst (search_documents env_ok ''graph'' [] initial_state)
     = Inr [graph_result \<lparr>cypher = ''MATCH (n) RETURN n''\<rparr>]
   \<and> sorted_wrt (\<lambda>a b. float_le (score b) (score a))
        [graph_result \<lparr>cypher = ''MATCH (n) RETURN n''\<rparr>]"
proof -
  have e2: "search_documents env_ok ''graph'' [hdoc_a, hdoc_b] initial_state
     = (Inr [vector_result hdoc_a (Finite 1),
             graph_result \<lparr>cypher = ''MATCH (n) RETURN n''\<rparr>,
             vector_result hdoc_b (Finite (1 / 2))],
        snd (search_documents env_ok ''graph'' [hdoc_a, hdoc_b] initial_state))"
    using run_env_ok_two by (simp add: prod_eq_iff)
  have e0: "search_documents env_ok ''graph'' [] initial_state
     = (Inr [graph_result \<lparr>cypher = ''MATCH (n) RETURN n''\<rparr>],
        snd (search_documents env_ok ''graph'' [] initial_state))"
    using run_env_ok_empty by (simp add: prod_eq_iff)
  have s2: "sorted_wrt (\<lambda>a b. float_le (score b) (score a))
        [vector_result hdoc_a (Finite 1),
         graph_result \<lparr>cypher = ''MATCH (n) RETURN n''\<rparr>,
         vector_result hdoc_b (Finite (1 / 2))]"
    by (rule search_documents_sorted [OF e2])
  have s0: "sorted_wrt (\<lambda>a b. float_le (score b) (score a))
        [graph_result \<lparr>cypher = ''MATCH (n) RETURN n''\<rparr>]"
    by (rule search_documents_sorted [OF e0])
  show ?thesis
    by (intro conjI run_env_ok_two run_env_ok_empty s2 s0)
qed

section \<open>The score of a vector hit\<close>


lemma sort_two_keep:
  "sort_by_score_reverse [vector_result x (Finite 1), vector_result y (Finite (1 / 2))]
   = [vector_result x (Finite 1), vector_result y (Finite (1 / 2))]"
  by (simp add: sort_by_score_reverse_def vector_result_def)







section \<open>When the translator fails\<close>

lemma load_FAISS_llm_down:
  assumes "list_all hashable docs"
  shows "load_FAISS env_llm_down docs initial_state
         = (Inr \<lparr>faiss_id = 0, faiss_docs = docs\<rparr>,
            snd (load_FAISS env_llm_down docs initial_state))"
  using assms
  by (simp add: load_FAISS_def load_FAISS_uncached_def env_llm_down_def env_ok_def
      initial_state_def log_call_def Let_def)

lemma env_llm_down_hits_two:
  "similarity_search_with_score env_llm_down [x, y] q (length [x, y])
     = Inr [(x, (python_float, Finite 0)), (y, (python_float, Finite 1))]"
  by (simp add: env_llm_down_def env_ok_def)

lemma text_to_cypher_llm_down: "fst (text_to_cypher env_llm_down q s) = Inr None"
  by (simp add: text_to_cypher_def env_llm_down_def env_ok_def Let_def)


text \<open>
  C6. For a non-empty query, when the vector path has returned its hits and built
  their results, and the translator returns no translated query (its outcome does not
  depend on the state \<open>s\<close> it is called in), \<open>search_documents\<close> returns exactly the
  results of the vector path: one result per hit, with the hit's document and its
  score, no graph result, sorted by score in descending order.
\<close>

theorem search_documents_translator_fails:
  assumes "query \<noteq> []"
    and "load_FAISS ev documents st = (Inr store, st1)"
    and "similarity_search_with_score ev (faiss_docs store) query (length documents) = Inr hits"
    and "append_hits hits [] = Inr vector_results"
    and "fst (text_to_cypher ev query s) = Inr None"
  shows "fst (search_documents ev query documents st) = Inr (sort_by_score_reverse vector_results)
     \<and> list_all2 (\<lambda>h r. \<exists>sc. score_of_distance (snd h) = Inr sc \<and> r = vector_result (fst h) sc)
          hits vector_results
     \<and> mset (sort_by_score_reverse vector_results) = mset vector_results
     \<and> length (sort_by_score_reverse vector_results) = length hits
     \<and> sorted_wrt (\<lambda>a b. float_le (score b) (score a)) (sort_by_score_reverse vector_results)"
proof -
  have "fst (search_documents ev query documents st)
        = Inr (sort_by_score_reverse (vector_results @ graph_results None))"
    using assms by (rule search_documents_success)
  then have a: "fst (search_documents ev query documents st)
        = Inr (sort_by_score_reverse vector_results)"
    by (simp add: graph_results_def)
  have l: "list_all2 (\<lambda>h r. hit_result h = Inr r) hits vector_results"
    using append_hits_Inr [OF assms(4)] by simp
  then have b: "list_all2 (\<lambda>h r. \<exists>sc. score_of_distance (snd h) = Inr sc
                  \<and> r = vector_result (fst h) sc) hits vector_results"
    by (rule list_all2_mono) (auto simp: hit_result_Inr)
  from l have len: "length vector_results = length hits"
    by (simp add: list_all2_lengthD)
  have "\<forall>r\<in>set vector_results. score r \<noteq> NaN"
    using append_hits_valid [OF assms(4)] by (rule valid_not_NaN)
  then have c: "sorted_wrt (\<lambda>a b. float_le (score b) (score a))
                  (sort_by_score_reverse vector_results)"
    by (rule sorted_sort_by_score)
  from a b c len show ?thesis
    by (simp add: mset_sort_by_score length_sort_by_score)
qed

theorem search_documents_translator_fails_witness:
  "fst (search_documents env_llm_down ''graph'' [hdoc_b, hdoc_a] initial_state)
     = Inr [vector_result hdoc_b (Finite 1), vector_result hdoc_a (Finite (1 / 2))]
   \<and> fst (search_documents env_llm_down ''graph'' [] initial_state) = Inr []"
proof -
  have q: "''graph'' \<noteq> []" by simp
  have h2: "list_all hashable [hdoc_b, hdoc_a]" by (simp add: hdoc_a_def hdoc_b_def)
  have s2: "similarity_search_with_score env_llm_down
             (faiss_docs \<lparr>faiss_id = 0, faiss_docs = [hdoc_b, hdoc_a]\<rparr>) ''graph''
             (length [hdoc_b, hdoc_a])
           = Inr [(hdoc_b, (python_float, Finite 0)), (hdoc_a, (python_float, Finite 1))]"
    using env_llm_down_hits_two [of hdoc_b hdoc_a "''graph''"] by simp
  have r2: "fst (search_documents env_llm_down ''graph'' [hdoc_b, hdoc_a] initial_state)
     = Inr [vector_result hdoc_b (Finite 1), vector_result hdoc_a (Finite (1 / 2))]"
    using search_documents_translator_fails [OF q load_FAISS_llm_down [OF h2] s2
        append_hits_two text_to_cypher_llm_down [of "''graph''" initial_state]]
    by (simp add: sort_two_keep)
  have h0: "list_all hashable []" by simp
  have s0: "similarity_search_with_score env_llm_down
             (faiss_docs \<lparr>faiss_id = 0, faiss_docs = []\<rparr>) ''graph''
             (length ([] :: Document list)) = Inr []"
    by (simp add: env_llm_down_def env_ok_def)
  have a0: "append_hits [] [] = Inr []" by simp
  have r0: "fst (search_documents env_llm_down ''graph'' [] initial_state) = Inr []"
    using search_documents_translator_fails [OF q load_FAISS_llm_down [OF h0] s0 a0
        text_to_cypher_llm_down [of "''graph''" initial_state]]
    by (simp add: sort_by_score_reverse_def)
  from r2 r0 show ?thesis by (intro conjI)
qed


section \<open>The length of the result list\<close>

text \<open>
  C7. For a non-empty query, the list that \<open>search_documents\<close> returns has as many
  elements as there are vector hits and graph results together, the graph results
  being none when the translation is absent; it holds exactly the results of the hits
  and the graph results, so nothing is cut off. The graph search stub returns exactly
  one result for every translated query, with the score 0.9 (the binary64 number
  nearest to 9/10), which lies in [0, 1].
\<close>

theorem search_documents_length:
  assumes "query \<noteq> []"
    and "load_FAISS ev documents st = (Inr store, st1)"
    and "similarity_search_with_score ev (faiss_docs store) query (length documents) = Inr hits"
    and "fst (text_to_cypher ev query s) = Inr tq"
    and "search_documents ev query documents st = (Inr results, st')"
  shows "length results = length hits + length (graph_results tq)
     \<and> (\<exists>vr. append_hits hits [] = Inr vr \<and> length vr = length hits
            \<and> mset results = mset vr + mset (graph_results tq))
     \<and> length (graph_results None) = 0
     \<and> search_knowledgegraph cq = Inr (graph_results (Some cq))
     \<and> length (graph_results (Some cq)) = 1
     \<and> map score (graph_results (Some cq)) = [float_literal (9 / 10)]
     \<and> float_literal (9 / 10) = Finite (8106479329266893 / 2 ^ 53)
     \<and> float_le (Finite 0) (float_literal (9 / 10))
     \<and> float_le (float_literal (9 / 10)) (Finite 1)"
proof -
  from assms(1,5) obtain store' st1' hits' vr tq' where
    l: "load_FAISS ev documents st = (Inr store', st1')" and
    h: "similarity_search_with_score ev (faiss_docs store') query (length documents) = Inr hits'" and
    v: "append_hits hits' [] = Inr vr" and
    t: "fst (text_to_cypher ev query st) = Inr tq'" and
    r: "results = sort_by_score_reverse (vr @ graph_results tq')"
    by (rule search_documents_Inr)
  from l assms(2) have "store' = store" by simp
  with h assms(3) have hits: "hits' = hits" by simp
  from t assms(4) text_to_cypher_state_free [of ev query st s] have tq: "tq' = tq" by simp
  have len: "length vr = length hits"
    using append_hits_Inr [OF v] hits by (auto simp: list_all2_lengthD)
  have a: "length results = length hits + length (graph_results tq)"
    by (simp add: r len tq length_sort_by_score)
  have "mset results = mset vr + mset (graph_results tq)"
    by (simp add: r tq mset_sort_by_score)
  with v hits len have b: "\<exists>vr. append_hits hits [] = Inr vr \<and> length vr = length hits
            \<and> mset results = mset vr + mset (graph_results tq)"
    by blast
  have c: "length (graph_results None) = 0" "length (graph_results (Some cq)) = 1"
    "search_knowledgegraph cq = Inr (graph_results (Some cq))"
    "map score (graph_results (Some cq)) = [float_literal (9 / 10)]"
    by (simp_all add: graph_results_def search_knowledgegraph_eq graph_result_def)
  show ?thesis
    by (intro conjI a b c float_literal_09 float_literal_09_bounds)
qed

theorem search_documents_length_witness:
  "fst (search_documents env_ok ''graph'' [hdoc_a, hdoc_b] initial_state)
     = Inr [vector_result hdoc_a (Finite 1),
            graph_result \<lparr>cypher = ''MATCH (n) RETURN n''\<rparr>,
            vector_result hdoc_b (Finite (1 / 2))]
   \<and> length [vector_result hdoc_a (Finite 1),
            graph_result \<lparr>cypher = ''MATCH (n) RETURN n''\<rparr>,
            vector_result hdoc_b (Finite (1 / 2))]
     = length [(hdoc_a, (python_float, Finite 0)), (hdoc_b, (python_float, Finite 1))]
       + length (graph_results (Some \<lparr>cypher = ''MATCH (n) RETURN n''\<rparr>))
   \<and> fst (search_documents env_ok ''graph'' [] initial_state)
     = Inr [graph_result \<lparr>cypher = ''MATCH (n) RETURN n''\<rparr>]
   \<and> length [graph_result \<lparr>cypher = ''MATCH (n) RETURN n''\<rparr>]
     = length ([] :: (Document \<times> number) list)
       + length (graph_results (Some \<lparr>cypher = ''MATCH (n) RETURN n''\<rparr>))"
proof -
  have q: "''graph'' \<noteq> []" by simp
  have h2: "list_all hashable [hdoc_a, hdoc_b]" by (simp add: hdoc_a_def hdoc_b_def)
  have s2: "similarity_search_with_score env_ok
             (faiss_docs \<lparr>faiss_id = 0, faiss_docs = [hdoc_a, hdoc_b]\<rparr>) ''graph''
             (length [hdoc_a, hdoc_b])
           = Inr [(hdoc_a, (python_float, Finite 0)), (hdoc_b, (python_float, Finite 1))]"
    using env_ok_hits_two [of hdoc_a hdoc_b "''graph''"] by simp
  have e2: "search_documents env_ok ''graph'' [hdoc_a, hdoc_b] initial_state
     = (Inr [vector_result hdoc_a (Finite 1),
             graph_result \<lparr>cypher = ''MATCH (n) RETURN n''\<rparr>,
             vector_result hdoc_b (Finite (1 / 2))],
        snd (search_documents env_ok ''graph'' [hdoc_a, hdoc_b] initial_state))"
    using run_env_ok_two by (simp add: prod_eq_iff)
  have l2: "length [vector_result hdoc_a (Finite 1),
            graph_result \<lparr>cypher = ''MATCH (n) RETURN n''\<rparr>,
            vector_result hdoc_b (Finite (1 / 2))]
     = length [(hdoc_a, (python_float, Finite 0)), (hdoc_b, (python_float, Finite 1))]
       + length (graph_results (Some \<lparr>cypher = ''MATCH (n) RETURN n''\<rparr>))"
    using search_documents_length [OF q load_FAISS_initial [OF h2] s2
        text_to_cypher_env_ok [of "''graph''" initial_state] e2]
    by (rule conjunct1)
  have h0: "list_all hashable []" by simp
  have s0: "similarity_search_with_score env_ok
             (faiss_docs \<lparr>faiss_id = 0, faiss_docs = []\<rparr>) ''graph''
             (length ([] :: Document list)) = Inr []"
    by (simp add: env_ok_def)
  have e0: "search_documents env_ok ''graph'' [] initial_state
     = (Inr [graph_result \<lparr>cypher = ''MATCH (n) RETURN n''\<rparr>],
        snd (search_documents env_ok ''graph'' [] initial_state))"
    using run_env_ok_empty by (simp add: prod_eq_iff)
  have l0: "length [graph_result \<lparr>cypher = ''MATCH (n) RETURN n''\<rparr>]
     = length ([] :: (Document \<times> number) list)
       + length (graph_results (Some \<lparr>cypher = ''MATCH (n) RETURN n''\<rparr>))"
    using search_documents_length [OF q load_FAISS_initial [OF h0] s0
        text_to_cypher_env_ok [of "''graph''" initial_state] e0]
    by (rule conjunct1)
  show ?thesis
    by (intro conjI run_env_ok_two run_env_ok_empty l2 l0)
qed

section \<open>The empty query\<close>

text \<open>
  C8. For every document sequence and every behaviour of the collaborators, the empty
  query returns the empty list and no error, and the state of the process is the one
  before the call: nothing was added to the calls made (no index build, no similarity
  search, no translation, no graph search) and the cache is untouched.
\<close>

theorem search_documents_empty_query:
  "search_documents ev [] documents st = (Inr [], st)"
  by (simp add: search_documents_def)

theorem search_documents_empty_query_witness:
  "search_documents env_down [] [doc_a, doc_b] initial_state = (Inr [], initial_state)"
  by (rule search_documents_empty_query)

end
